theory Spec2Isabelle
  imports Main "HOL-Library.AList"
begin

section \<open>Python values\<close>

text \<open>
  A Python \<open>str\<close> is the sequence of its code points, so it is a list of naturals here
  (a HOL \<open>char\<close> is one byte and could not hold a code point above 255).
  \<open>ascii\<close> writes a literal of the source as such a sequence.
\<close>

type_synonym ustr = "nat list"

definition ascii :: "string \<Rightarrow> ustr" where
  "ascii s = map of_char s"

text \<open>
  The values \<open>json.loads\<close> produces: \<open>None\<close>, \<open>bool\<close>, \<open>int\<close>, \<open>float\<close>, \<open>str\<close>,
  \<open>list\<close> and \<open>dict\<close> with string keys. A dict is an association list in insertion
  order; looking a key up is \<open>map_of\<close>, and storing one is \<open>AList.update\<close>, which
  overwrites in place or appends, as a Python dict does. A float is kept as sign,
  mantissa and binary exponent (or an infinity, or NaN): the program only passes
  floats through and tests them for truth.
\<close>

datatype pyfloat = Finite bool nat int | Infinity bool | NaN

datatype json =
    JNull
  | JBool bool
  | JInt int
  | JFloat pyfloat
  | JString ustr
  | JArray "json list"
  | JObject "(ustr \<times> json) list"

type_synonym pydict = "(ustr \<times> json) list"

datatype pyerr =
    AttributeError
  | TypeError
  | ValueError
  | IndexError
  | UnboundLocalError
  | RequestException
  | NonStringKey

text \<open>Truth value testing of Python: \<open>not x\<close> is \<open>\<not> truthy x\<close>.\<close>

fun truthy :: "json \<Rightarrow> bool" where
  "truthy JNull = False"
| "truthy (JBool b) = b"
| "truthy (JInt i) = (i \<noteq> 0)"
| "truthy (JFloat (Finite s m e)) = (m \<noteq> 0)"
| "truthy (JFloat (Infinity s)) = True"
| "truthy (JFloat NaN) = True"
| "truthy (JString s) = (s \<noteq> [])"
| "truthy (JArray xs) = (xs \<noteq> [])"
| "truthy (JObject kvs) = (kvs \<noteq> [])"

text \<open>
  \<open>d.get(k, default)\<close>: only a dict has the method; on any other value the attribute
  lookup raises AttributeError.
\<close>

fun py_get :: "json \<Rightarrow> ustr \<Rightarrow> json \<Rightarrow> pyerr + json" where
  "py_get (JObject kvs) k dflt = Inr (case map_of kvs k of None \<Rightarrow> dflt | Some v \<Rightarrow> v)"
| "py_get _ k dflt = Inl AttributeError"

text \<open>
  \<open>text.find(key)\<close>: the index of the first occurrence of \<open>key\<close> in \<open>text\<close>, or \<open>-1\<close>.
\<close>

fun find_from :: "ustr \<Rightarrow> ustr \<Rightarrow> nat \<Rightarrow> int" where
  "find_from key [] k = (if key = [] then int k else - 1)"
| "find_from key (c # cs) k =
     (if take (length key) (c # cs) = key then int k else find_from key cs (Suc k))"

definition py_find :: "ustr \<Rightarrow> ustr \<Rightarrow> int" where
  "py_find text key = find_from key text 0"

text \<open>\<open>text[a:b]\<close> for indices that are not negative.\<close>

definition py_slice :: "'a list \<Rightarrow> nat \<Rightarrow> nat \<Rightarrow> 'a list" where
  "py_slice text a b = take (b - a) (drop a text)"

section \<open>Extractor\<close>

definition open_brace :: nat where
  "open_brace = of_char CHR ''{''"

definition close_brace :: nat where
  "close_brace = of_char CHR ''}''"

text \<open>
  The \<open>for j in range(i + 1, len(text))\<close> loop of \<open>extract_realestates\<close>, run on the
  characters from index \<open>j\<close> on. \<open>Inr (Some end)\<close> is the \<open>break\<close> with \<open>end = j + 1\<close>,
  \<open>Inr None\<close> is the \<open>else\<close> branch of the loop (the range is exhausted), and
  \<open>stack.pop()\<close> on an empty list raises IndexError.
\<close>

fun brace_loop :: "ustr \<Rightarrow> nat \<Rightarrow> nat list \<Rightarrow> pyerr + nat option" where
  "brace_loop [] j stack = Inr None"
| "brace_loop (c # cs) j stack =
     (if c = open_brace then brace_loop cs (Suc j) (stack @ [open_brace])
      else if c = close_brace then
        (if stack = [] then Inl IndexError
         else let stack' = butlast stack in
           if stack' = [] then Inr (Some (j + 1)) else brace_loop cs (Suc j) stack')
      else brace_loop cs (Suc j) stack)"

text \<open>
  \<open>extract_realestates\<close>. \<open>json.loads\<close> is the standard library's; it is the parameter
  \<open>loads\<close>, with \<open>None\<close> for a raised exception. The \<open>try\<close> block catches every
  exception of \<open>json.loads\<close> and of \<open>data.get\<close> and returns the empty list.
\<close>

definition extract_realestates :: "(ustr \<Rightarrow> json option) \<Rightarrow> ustr \<Rightarrow> pyerr + json" where
  \<open>extract_realestates loads text =
    (let key = ascii ''"realEstatesData":{'';
         start = py_find text key
     in if start = - 1 then Inr (JArray [])
        else
          let i = start + int (length key) - 1 in
          case brace_loop (drop (nat (i + 1)) text) (nat (i + 1)) [open_brace] of
            Inl e \<Rightarrow> Inl e
          | Inr None \<Rightarrow> Inr (JArray [])
          | Inr (Some end_ix) \<Rightarrow>
              let block = py_slice text
                    (nat (start + int (length (ascii ''"realEstatesData":'')))) end_ix
              in (case loads block of
                    None \<Rightarrow> Inr (JArray [])
                  | Some data \<Rightarrow>
                      (case py_get data (ascii ''realEstates'') (JArray []) of
                         Inl e \<Rightarrow> Inr (JArray [])
                       | Inr v \<Rightarrow> Inr v)))\<close>

section \<open>Normalizer\<close>

definition BASE_IMAGE_URL :: ustr where
  "BASE_IMAGE_URL = ascii
     ''https://selectumproperty.com/_next/image?url=https%3A%2F%2Fselectumproperty.com%2Fapi%2Ffiles%2Fproperty-images%2F''"

text \<open>
  \<open>text.encode('latin1')\<close>: one byte per character; a code point above 255 raises
  UnicodeEncodeError (\<open>None\<close>).
\<close>

definition latin1_encode :: "ustr \<Rightarrow> nat list option" where
  "latin1_encode s = (if list_all (\<lambda>c. c < 256) s then Some s else None)"

text \<open>
  \<open>bytes.decode('utf-8')\<close>, the strict decoder: shortest forms only, no surrogates,
  nothing above U+10FFFF; any other byte sequence raises UnicodeDecodeError (\<open>None\<close>).
  \<open>second_ok b0 b1\<close> is the range of the byte that may follow the lead byte \<open>b0\<close>.
\<close>

definition cont :: "nat \<Rightarrow> bool" where
  "cont b = (128 \<le> b \<and> b < 192)"

definition second_ok :: "nat \<Rightarrow> nat \<Rightarrow> bool" where
  "second_ok b0 b1 =
     (if b0 = 224 then 160 \<le> b1 \<and> b1 < 192
      else if b0 = 237 then 128 \<le> b1 \<and> b1 < 160
      else if b0 = 240 then 144 \<le> b1 \<and> b1 < 192
      else if b0 = 244 then 128 \<le> b1 \<and> b1 < 144
      else cont b1)"

fun utf8_decode :: "nat list \<Rightarrow> ustr option" where
  "utf8_decode [] = Some []"
| "utf8_decode (b0 # bs) =
     (if b0 < 128 then map_option (Cons b0) (utf8_decode bs)
      else if 194 \<le> b0 \<and> b0 < 224 then
        (case bs of
           b1 # r \<Rightarrow>
             if cont b1
             then map_option (Cons ((b0 - 192) * 64 + (b1 - 128))) (utf8_decode r)
             else None
         | _ \<Rightarrow> None)
      else if 224 \<le> b0 \<and> b0 < 240 then
        (case bs of
           b1 # b2 # r \<Rightarrow>
             if second_ok b0 b1 \<and> cont b2
             then map_option
                    (Cons ((b0 - 224) * 4096 + (b1 - 128) * 64 + (b2 - 128)))
                    (utf8_decode r)
             else None
         | _ \<Rightarrow> None)
      else if 240 \<le> b0 \<and> b0 < 245 then
        (case bs of
           b1 # b2 # b3 # r \<Rightarrow>
             if second_ok b0 b1 \<and> cont b2 \<and> cont b3
             then map_option
                    (Cons ((b0 - 240) * 262144 + (b1 - 128) * 4096 + (b2 - 128) * 64
                           + (b3 - 128)))
                    (utf8_decode r)
             else None
         | _ \<Rightarrow> None)
      else None)"

text \<open>
  \<open>decode_text\<close>. Python calls it with whatever value the record holds: a falsy value
  gives the empty string, and a value that is not a \<open>str\<close> has no \<open>encode\<close>, so the
  AttributeError is caught and the value comes back unchanged.
\<close>

definition decode_text :: "json \<Rightarrow> json" where
  "decode_text text =
     (if \<not> truthy text then JString []
      else case text of
             JString s \<Rightarrow>
               (case Option.bind (latin1_encode s) utf8_decode of
                  Some t \<Rightarrow> JString t
                | None \<Rightarrow> text)
           | _ \<Rightarrow> text)"

text \<open>The loop over the four text keys of \<open>format_estate\<close>.\<close>

fun decode_fields :: "ustr list \<Rightarrow> pydict \<Rightarrow> pydict" where
  "decode_fields [] result = result"
| "decode_fields (key # keys) result =
     (case map_of result key of
        None \<Rightarrow> decode_fields keys result
      | Some v \<Rightarrow>
          if v \<noteq> JNull
          then decode_fields keys (AList.update key (decode_text v) result)
          else decode_fields keys result)"

text \<open>
  \<open>for x in v\<close>: a list gives its items, a string its characters, a dict its keys;
  \<open>None\<close>, a bool and a number are not iterable.
\<close>

fun py_iter :: "json \<Rightarrow> pyerr + json list" where
  "py_iter (JArray xs) = Inr xs"
| "py_iter (JString s) = Inr (map (\<lambda>c. JString [c]) s)"
| "py_iter (JObject kvs) = Inr (map (\<lambda>kv. JString (fst kv)) kvs)"
| "py_iter _ = Inl TypeError"

text \<open>
  The list comprehension that builds \<open>image_urls\<close>: the filter \<open>img.get('file_name')\<close>,
  then \<open>BASE_IMAGE_URL + img['file_name'] + '&w=2048&q=75'\<close>, where adding a value
  that is not a \<open>str\<close> to a \<open>str\<close> raises TypeError.
\<close>

fun image_urls_of :: "json list \<Rightarrow> pyerr + ustr list" where
  "image_urls_of [] = Inr []"
| "image_urls_of (img # imgs) =
     (case py_get img (ascii ''file_name'') JNull of
        Inl e \<Rightarrow> Inl e
      | Inr fn \<Rightarrow>
          if truthy fn then
            (case fn of
               JString s \<Rightarrow>
                 (case image_urls_of imgs of
                    Inl e \<Rightarrow> Inl e
                  | Inr urls \<Rightarrow> Inr ((BASE_IMAGE_URL @ s @ ascii ''&w=2048&q=75'') # urls))
             | _ \<Rightarrow> Inl TypeError)
          else image_urls_of imgs)"

text \<open>
  The generator \<open>decode_text(t.get('name', '')) for t in types if t.get('name')\<close>,
  which \<open>str.join\<close> runs to its end before it looks at the items.
\<close>

fun type_names :: "json list \<Rightarrow> pyerr + json list" where
  "type_names [] = Inr []"
| "type_names (t # ts) =
     (case py_get t (ascii ''name'') JNull of
        Inl e \<Rightarrow> Inl e
      | Inr n \<Rightarrow>
          if truthy n then
            (case py_get t (ascii ''name'') (JString []) of
               Inl e \<Rightarrow> Inl e
             | Inr n' \<Rightarrow>
                 (case type_names ts of
                    Inl e \<Rightarrow> Inl e
                  | Inr ns \<Rightarrow> Inr (decode_text n' # ns)))
          else type_names ts)"

text \<open>\<open>sep.join(items)\<close>: an item that is not a \<open>str\<close> raises TypeError.\<close>

fun py_join :: "ustr \<Rightarrow> json list \<Rightarrow> pyerr + ustr" where
  "py_join sep [] = Inr []"
| "py_join sep [JString s] = Inr s"
| "py_join sep (JString s # x # xs) =
     (case py_join sep (x # xs) of Inl e \<Rightarrow> Inl e | Inr r \<Rightarrow> Inr (s @ sep @ r))"
| "py_join sep (_ # xs) = Inl TypeError"

fun isinstance_list :: "json \<Rightarrow> bool" where
  "isinstance_list (JArray xs) = True"
| "isinstance_list _ = False"

definition format_estate :: "pydict \<Rightarrow> pyerr + pydict" where
  "format_estate estate =
     (let result = decode_fields
            [ascii ''title'', ascii ''location'', ascii ''area'', ascii ''houseType''] estate;
          images = (case map_of result (ascii ''images'') of None \<Rightarrow> JArray [] | Some v \<Rightarrow> v)
      in case py_iter images of
           Inl e \<Rightarrow> Inl e
         | Inr imgs \<Rightarrow>
             (case image_urls_of imgs of
                Inl e \<Rightarrow> Inl e
              | Inr urls \<Rightarrow>
                  let result = AList.update (ascii ''image_urls'') (JArray (map JString urls)) result;
                      types = (case map_of result (ascii ''types'') of None \<Rightarrow> JNull | Some v \<Rightarrow> v)
                  in if truthy types \<and> isinstance_list types then
                       (case py_iter types of
                          Inl e \<Rightarrow> Inl e
                        | Inr ts \<Rightarrow>
                            (case type_names ts of
                               Inl e \<Rightarrow> Inl e
                             | Inr ns \<Rightarrow>
                                 (case py_join (ascii '', '') ns of
                                    Inl e \<Rightarrow> Inl e
                                  | Inr joined \<Rightarrow>
                                      Inr (AList.update (ascii ''types'') (JString joined) result))))
                     else Inr (AList.update (ascii ''types'') (JString []) result)))"

section \<open>Paginator\<close>

text \<open>
  \<open>dict(estate)\<close>, the first statement of \<open>format_estate\<close>, on the entries of the
  extracted list. A dict is copied. Any other iterable must yield sequences of length
  two, taken as key and value (ValueError otherwise, TypeError for an item that is not
  a sequence or a key that is not hashable). A key that is hashable but not a string
  would give a dict that \<open>pydict\<close> cannot hold; the model stops there with
  \<open>NonStringKey\<close>.
\<close>

fun dict_item :: "json \<Rightarrow> pyerr + ustr \<times> json" where
  "dict_item x =
     (case py_iter x of
        Inl e \<Rightarrow> Inl TypeError
      | Inr [k, v] \<Rightarrow>
          (case k of
             JString s \<Rightarrow> Inr (s, v)
           | JArray ys \<Rightarrow> Inl TypeError
           | JObject kvs \<Rightarrow> Inl TypeError
           | _ \<Rightarrow> Inl NonStringKey)
      | Inr _ \<Rightarrow> Inl ValueError)"

fun dict_items :: "json list \<Rightarrow> pydict \<Rightarrow> pyerr + pydict" where
  "dict_items [] d = Inr d"
| "dict_items (x # xs) d =
     (case dict_item x of
        Inl e \<Rightarrow> Inl e
      | Inr (k, v) \<Rightarrow> dict_items xs (AList.update k v d))"

fun py_dict :: "json \<Rightarrow> pyerr + pydict" where
  "py_dict (JObject kvs) = Inr kvs"
| "py_dict x = (case py_iter x of Inl e \<Rightarrow> Inl e | Inr xs \<Rightarrow> dict_items xs [])"

text \<open>\<open>[self.format_estate(e) for e in raw_estates]\<close>.\<close>

fun format_all :: "json list \<Rightarrow> pyerr + json list" where
  "format_all [] = Inr []"
| "format_all (e # es) =
     (case py_dict e of
        Inl x \<Rightarrow> Inl x
      | Inr d \<Rightarrow>
          (case format_estate d of
             Inl x \<Rightarrow> Inl x
           | Inr r \<Rightarrow>
               (case format_all es of
                  Inl x \<Rightarrow> Inl x
                | Inr rs \<Rightarrow> Inr (JObject r # rs))))"

text \<open>
  \<open>get_realestates_page\<close>. The HTTP request \<open>self.session.get(...).text\<close> is the
  parameter \<open>fetch\<close>, which may raise. The state threaded through is the list of page
  numbers requested so far, in order.
\<close>

definition get_realestates_page ::
  "(int \<Rightarrow> pyerr + ustr) \<Rightarrow> (ustr \<Rightarrow> json option) \<Rightarrow> int \<Rightarrow> int list
     \<Rightarrow> (pyerr + json list) \<times> int list" where
  "get_realestates_page fetch loads page fetched =
     (let fetched' = fetched @ [page] in
      case fetch page of
        Inl e \<Rightarrow> (Inl e, fetched')
      | Inr text \<Rightarrow>
          (case extract_realestates loads text of
             Inl e \<Rightarrow> (Inl e, fetched')
           | Inr raw_estates \<Rightarrow>
               (case py_iter raw_estates of
                  Inl e \<Rightarrow> (Inl e, fetched')
                | Inr es \<Rightarrow> (format_all es, fetched'))))"

text \<open>
  The \<open>for page in range(1, max_pages + 1)\<close> loop of \<open>get_all_realestates\<close>, run on the
  pages left. The third component of the loop state is the binding of the local
  variables \<open>page\<close> and \<open>estates\<close>: \<open>None\<close> while the body has not run.
\<close>

fun pages_loop ::
  "(int \<Rightarrow> int list \<Rightarrow> (pyerr + json list) \<times> int list) \<Rightarrow> int list \<Rightarrow> json list
     \<Rightarrow> (int \<times> json list) option \<Rightarrow> int list
     \<Rightarrow> (pyerr + json list \<times> (int \<times> json list) option) \<times> int list" where
  "pages_loop get_page [] all_estates bound fetched = (Inr (all_estates, bound), fetched)"
| "pages_loop get_page (page # pages) all_estates bound fetched =
     (case get_page page fetched of
        (Inl e, fetched') \<Rightarrow> (Inl e, fetched')
      | (Inr estates, fetched') \<Rightarrow>
          if estates = [] then (Inr (all_estates, Some (page, estates)), fetched')
          else pages_loop get_page pages (all_estates @ estates) (Some (page, estates)) fetched')"

text \<open>
  \<open>get_all_realestates\<close>. After the loop the log line evaluates
  \<open>page if estates else page-1\<close>, which reads \<open>estates\<close> first: unbound, it raises
  UnboundLocalError. The result is paired with the pages requested.
\<close>

definition get_all_realestates ::
  "(int \<Rightarrow> pyerr + ustr) \<Rightarrow> (ustr \<Rightarrow> json option) \<Rightarrow> int
     \<Rightarrow> (pyerr + json list) \<times> int list" where
  "get_all_realestates fetch loads max_pages =
     (case pages_loop (get_realestates_page fetch loads) [1..max_pages] [] None [] of
        (Inl e, fetched) \<Rightarrow> (Inl e, fetched)
      | (Inr (all_estates, None), fetched) \<Rightarrow> (Inl UnboundLocalError, fetched)
      | (Inr (all_estates, Some (page, estates)), fetched) \<Rightarrow> (Inr all_estates, fetched))"

section \<open>A reader for a fragment of JSON\<close>

text \<open>
  The concrete inputs below need the text of a page read as \<open>json.loads\<close> reads it.
  \<open>json_loads\<close> does so for documents made of objects, arrays, strings without escape
  sequences, integers, \<open>true\<close>, \<open>false\<close> and \<open>null\<close>, with the white space JSON allows;
  an object that repeats a key keeps the last value. On any other text, a malformed
  one included, it answers \<open>None\<close>. The fuel bounds the nesting and is twice the
  length of the text, more than any text can use.
\<close>

definition is_ws :: "nat \<Rightarrow> bool" where
  "is_ws c = (c = 32 \<or> c = 9 \<or> c = 10 \<or> c = 13)"

definition skip_ws :: "ustr \<Rightarrow> ustr" where
  "skip_ws s = dropWhile is_ws s"

definition is_digit :: "nat \<Rightarrow> bool" where
  "is_digit c = (48 \<le> c \<and> c < 58)"

fun parse_string :: "ustr \<Rightarrow> ustr \<Rightarrow> (ustr \<times> ustr) option" where
  "parse_string [] acc = None"
| "parse_string (c # cs) acc =
     (if c = 34 then Some (rev acc, cs)
      else if c = 92 \<or> c < 32 then None
      else parse_string cs (c # acc))"

definition digits_value :: "ustr \<Rightarrow> int" where
  "digits_value ds = foldl (\<lambda>a d. 10 * a + int (d - 48)) 0 ds"

definition parse_int :: "ustr \<Rightarrow> (json \<times> ustr) option" where
  "parse_int s =
     (let neg = (s \<noteq> [] \<and> hd s = 45);
          body = (if neg then tl s else s);
          ds = (if body \<noteq> [] \<and> hd body = 48 then [48] else takeWhile is_digit body);
          rest = drop (length ds) body
      in if ds = [] then None
         else if rest \<noteq> [] \<and> (hd rest = 46 \<or> hd rest = 101 \<or> hd rest = 69) then None
         else Some (JInt (if neg then - digits_value ds else digits_value ds), rest))"

definition parse_literal :: "ustr \<Rightarrow> (json \<times> ustr) option" where
  "parse_literal s =
     (if take 4 s = ascii ''null'' then Some (JNull, drop 4 s)
      else if take 4 s = ascii ''true'' then Some (JBool True, drop 4 s)
      else if take 5 s = ascii ''false'' then Some (JBool False, drop 5 s)
      else parse_int s)"

fun parse_value :: "nat \<Rightarrow> ustr \<Rightarrow> (json \<times> ustr) option"
  and parse_items :: "nat \<Rightarrow> ustr \<Rightarrow> json list \<Rightarrow> (json \<times> ustr) option"
  and parse_members :: "nat \<Rightarrow> ustr \<Rightarrow> pydict \<Rightarrow> (json \<times> ustr) option" where
  "parse_value 0 s = None"
| "parse_value (Suc n) s =
     (case s of
        [] \<Rightarrow> None
      | c # cs \<Rightarrow>
          if c = 34 then map_option (\<lambda>(str, r). (JString str, r)) (parse_string cs [])
          else if c = 91 then
            (case skip_ws cs of
               [] \<Rightarrow> None
             | d # ds \<Rightarrow> if d = 93 then Some (JArray [], ds) else parse_items n (d # ds) [])
          else if c = 123 then
            (case skip_ws cs of
               [] \<Rightarrow> None
             | d # ds \<Rightarrow> if d = 125 then Some (JObject [], ds) else parse_members n (d # ds) [])
          else parse_literal s)"
| "parse_items 0 s acc = None"
| "parse_items (Suc n) s acc =
     (case parse_value n s of
        None \<Rightarrow> None
      | Some (v, r) \<Rightarrow>
          (case skip_ws r of
             [] \<Rightarrow> None
           | d # ds \<Rightarrow>
               if d = 93 then Some (JArray (acc @ [v]), ds)
               else if d = 44 then parse_items n (skip_ws ds) (acc @ [v])
               else None))"
| "parse_members 0 s acc = None"
| "parse_members (Suc n) s acc =
     (case s of
        [] \<Rightarrow> None
      | q # cs \<Rightarrow>
          if q \<noteq> 34 then None
          else
            (case parse_string cs [] of
               None \<Rightarrow> None
             | Some (k, r) \<Rightarrow>
                 (case skip_ws r of
                    [] \<Rightarrow> None
                  | colon # r' \<Rightarrow>
                      if colon \<noteq> 58 then None
                      else
                        (case parse_value n (skip_ws r') of
                           None \<Rightarrow> None
                         | Some (v, r'') \<Rightarrow>
                             (case skip_ws r'' of
                                [] \<Rightarrow> None
                              | d # ds \<Rightarrow>
                                  if d = 125 then Some (JObject (AList.update k v acc), ds)
                                  else if d = 44
                                  then parse_members n (skip_ws ds) (AList.update k v acc)
                                  else None)))))"

definition json_loads :: "ustr \<Rightarrow> json option" where
  "json_loads s =
     (case parse_value (2 * length s + 2) (skip_ws s) of
        None \<Rightarrow> None
      | Some (v, r) \<Rightarrow> if skip_ws r = [] then Some v else None)"

section \<open>Notions used in the statements\<close>

text \<open>
  The marker the extractor searches for, and the same without its brace: the payload
  follows the latter. \<open>occurs key pg\<close> says that \<open>key\<close> is a substring of \<open>pg\<close>.
  \<open>depth\<close> is the brace depth of a text: opening braces minus closing braces, whether
  or not they stand inside a string literal. \<open>never_closes rest\<close>: counting from one,
  for the brace of the marker, the depth never returns to zero in \<open>rest\<close>.
  \<open>balanced_block blk\<close>: \<open>blk\<close> starts with an opening brace and its depth returns
  to zero at its last character and not before.
\<close>

definition marker_key :: ustr where
  \<open>marker_key = ascii ''"realEstatesData":{''\<close>

definition marker_tag :: ustr where
  \<open>marker_tag = ascii ''"realEstatesData":''\<close>

definition occurs :: "ustr \<Rightarrow> ustr \<Rightarrow> bool" where
  "occurs key pg =
     list_ex (\<lambda>n. take (length key) (drop n pg) = key) [0..<Suc (length pg)]"

definition depth :: "ustr \<Rightarrow> int" where
  "depth s = int (count_list s open_brace) - int (count_list s close_brace)"

definition never_closes :: "ustr \<Rightarrow> bool" where
  "never_closes rest = list_all (\<lambda>n. 0 < 1 + depth (take n rest)) [0..<Suc (length rest)]"

definition balanced_block :: "ustr \<Rightarrow> bool" where
  "balanced_block blk =
     (blk \<noteq> [] \<and> hd blk = open_brace \<and> depth blk = 0 \<and>
      list_all (\<lambda>n. 0 < depth (take n blk)) [1..<length blk])"


text \<open>
  For the normalizer. \<open>text_keys\<close> are the four known text fields. \<open>redecode s\<close> is the
  text re-decoding in the words of the specification: the code points of \<open>s\<close> taken as
  single bytes and decoded as UTF-8, and \<open>s\<close> itself where that fails.
  \<open>images_value\<close> and \<open>types_value\<close> are what \<open>result.get('images', [])\<close> and
  \<open>result.get('types')\<close> read, and \<open>flatten_types\<close> is the \<open>if\<close>/\<open>else\<close> of
  \<open>format_estate\<close> that computes \<open>result['types']\<close> from the latter.
  \<open>expected_image_urls\<close>, \<open>joined\<close> and \<open>expected_type_names\<close> say what the
  specification expects in \<open>image_urls\<close> and \<open>types\<close>. \<open>entry_ok fld x\<close>: \<open>x\<close> is a
  mapping whose field \<open>fld\<close> is absent, falsy or a string; \<open>images_wf\<close> and \<open>types_wf\<close>
  ask it of every entry of a list-valued \<open>images\<close> and \<open>types\<close>.
  \<open>page_records\<close> is the normalized record list of a page: the result of
  \<open>get_realestates_page\<close> without the log of requests.
\<close>

definition text_keys :: "ustr list" where
  "text_keys = [ascii ''title'', ascii ''location'', ascii ''area'', ascii ''houseType'']"

definition redecode :: "ustr \<Rightarrow> ustr" where
  "redecode s =
     (case Option.bind (latin1_encode s) utf8_decode of Some t \<Rightarrow> t | None \<Rightarrow> s)"

fun isinstance_str :: "json \<Rightarrow> bool" where
  "isinstance_str (JString s) = True"
| "isinstance_str _ = False"

definition images_value :: "pydict \<Rightarrow> json" where
  "images_value e = (case map_of e (ascii ''images'') of None \<Rightarrow> JArray [] | Some v \<Rightarrow> v)"

definition types_value :: "pydict \<Rightarrow> json" where
  "types_value e = (case map_of e (ascii ''types'') of None \<Rightarrow> JNull | Some v \<Rightarrow> v)"

definition flatten_types :: "json \<Rightarrow> pyerr + ustr" where
  "flatten_types types =
     (if truthy types \<and> isinstance_list types then
        (case py_iter types of
           Inl e \<Rightarrow> Inl e
         | Inr ts \<Rightarrow>
             (case type_names ts of
                Inl e \<Rightarrow> Inl e
              | Inr ns \<Rightarrow> py_join (ascii '', '') ns))
      else Inr [])"

fun expected_image_urls :: "json list \<Rightarrow> ustr list" where
  "expected_image_urls [] = []"
| "expected_image_urls (img # imgs) =
     (case img of
        JObject kvs \<Rightarrow>
          (case map_of kvs (ascii ''file_name'') of
             Some (JString s) \<Rightarrow>
               if s \<noteq> [] then [BASE_IMAGE_URL @ s @ ascii ''&w=2048&q=75''] else []
           | _ \<Rightarrow> [])
      | _ \<Rightarrow> [])
     @ expected_image_urls imgs"

fun joined :: "ustr \<Rightarrow> ustr list \<Rightarrow> ustr" where
  "joined sep [] = []"
| "joined sep [s] = s"
| "joined sep (s # t # ts) = s @ sep @ joined sep (t # ts)"

fun expected_type_names :: "json list \<Rightarrow> ustr list" where
  "expected_type_names [] = []"
| "expected_type_names (t # ts) =
     (case t of
        JObject kvs \<Rightarrow>
          (case map_of kvs (ascii ''name'') of
             Some (JString s) \<Rightarrow> if s \<noteq> [] then [redecode s] else []
           | _ \<Rightarrow> [])
      | _ \<Rightarrow> [])
     @ expected_type_names ts"

definition entry_ok :: "ustr \<Rightarrow> json \<Rightarrow> bool" where
  "entry_ok fld x =
     (case x of
        JObject kvs \<Rightarrow>
          (case map_of kvs fld of
             None \<Rightarrow> True
           | Some v \<Rightarrow> \<not> truthy v \<or> isinstance_str v)
      | _ \<Rightarrow> False)"

definition images_wf :: "pydict \<Rightarrow> bool" where
  "images_wf e =
     (case map_of e (ascii ''images'') of
        None \<Rightarrow> True
      | Some (JArray imgs) \<Rightarrow> list_all (entry_ok (ascii ''file_name'')) imgs
      | Some _ \<Rightarrow> False)"

definition types_wf :: "pydict \<Rightarrow> bool" where
  "types_wf e =
     (case map_of e (ascii ''types'') of
        Some (JArray ts) \<Rightarrow> list_all (entry_ok (ascii ''name'')) ts
      | _ \<Rightarrow> True)"

definition page_records ::
  "(int \<Rightarrow> pyerr + ustr) \<Rightarrow> (ustr \<Rightarrow> json option) \<Rightarrow> int \<Rightarrow> pyerr + json list" where
  "page_records fetch loads p = fst (get_realestates_page fetch loads p [])"


section \<open>The extractor: facts about the search and the brace loop\<close>

lemma marker_key_eq: "marker_key = marker_tag @ [open_brace]"
  by (simp add: marker_key_def marker_tag_def ascii_def open_brace_def)

lemma length_marker_tag: "length marker_tag = 18"
  by (simp add: marker_tag_def ascii_def)

lemma length_marker_key: "length marker_key = 19"
  by (simp add: marker_key_eq length_marker_tag)

lemma braces_neq: "open_brace \<noteq> close_brace"
  by (simp add: open_brace_def close_brace_def)

lemma occurs_iff:
  "occurs key pg \<longleftrightarrow> (\<exists>n\<le>length pg. take (length key) (drop n pg) = key)"
  unfolding occurs_def list_ex_iff set_upt by (auto simp: less_Suc_eq_le)

lemma occurs_infix:
  "occurs key pg \<longleftrightarrow> (\<exists>pre post. pg = pre @ key @ post)"
proof
  assume "occurs key pg"
  then obtain n where n: "n \<le> length pg" "take (length key) (drop n pg) = key"
    by (auto simp: occurs_iff)
  have "pg = take n pg @ take (length key) (drop n pg) @ drop (length key) (drop n pg)"
    by (simp only: append_take_drop_id)
  with n show "\<exists>pre post. pg = pre @ key @ post" by metis
next
  assume "\<exists>pre post. pg = pre @ key @ post"
  then obtain pre post where t: "pg = pre @ key @ post" by blast
  have "take (length key) (drop (length pre) pg) = key" by (simp add: t)
  moreover have "length pre \<le> length pg" by (simp add: t)
  ultimately show "occurs key pg" unfolding occurs_iff by blast
qed

lemma find_from_miss:
  "\<forall>n\<le>length pg. take (length key) (drop n pg) \<noteq> key \<Longrightarrow> find_from key pg k = - 1"
proof (induction pg arbitrary: k)
  case Nil
  then show ?case by auto
next
  case (Cons c cs)
  have head: "take (length key) (c # cs) \<noteq> key"
    using Cons.prems by (metis drop0 le0)
  have "\<forall>n\<le>length cs. take (length key) (drop n cs) \<noteq> key"
  proof (intro allI impI)
    fix n assume "n \<le> length cs"
    then have "Suc n \<le> length (c # cs)" by simp
    with Cons.prems have "take (length key) (drop (Suc n) (c # cs)) \<noteq> key" by blast
    then show "take (length key) (drop n cs) \<noteq> key" by simp
  qed
  then have "find_from key cs (Suc k) = - 1" by (rule Cons.IH)
  with head show ?case by simp
qed

lemma find_from_hit:
  "take (length key) (drop n pg) = key \<Longrightarrow> n \<le> length pg \<Longrightarrow>
   \<forall>m<n. take (length key) (drop m pg) \<noteq> key \<Longrightarrow>
   find_from key pg k = int (k + n)"
proof (induction pg arbitrary: k n)
  case Nil
  then show ?case by auto
next
  case (Cons c cs)
  show ?case
  proof (cases n)
    case 0
    with Cons.prems show ?thesis by simp
  next
    case (Suc n')
    have head: "take (length key) (c # cs) \<noteq> key"
      using Cons.prems(3) Suc by (metis drop0 zero_less_Suc)
    have a: "take (length key) (drop n' cs) = key" using Cons.prems(1) Suc by simp
    have b: "n' \<le> length cs" using Cons.prems(2) Suc by simp
    have c: "\<forall>m<n'. take (length key) (drop m cs) \<noteq> key"
    proof (intro allI impI)
      fix m assume "m < n'"
      then have "Suc m < n" using Suc by simp
      with Cons.prems(3) have "take (length key) (drop (Suc m) (c # cs)) \<noteq> key" by blast
      then show "take (length key) (drop m cs) \<noteq> key" by simp
    qed
    have "find_from key cs (Suc k) = int (Suc k + n')" using a b c by (rule Cons.IH)
    with head Suc show ?thesis by simp
  qed
qed

lemma find_from_ge: "find_from key pg k = - 1 \<or> int k \<le> find_from key pg k"
proof (induction pg arbitrary: k)
  case Nil
  show ?case by simp
next
  case (Cons c cs)
  from Cons.IH [of "Suc k"] show ?case by auto
qed

lemma py_find_absent: "\<not> occurs key pg \<Longrightarrow> py_find pg key = - 1"
  unfolding py_find_def by (rule find_from_miss) (simp add: occurs_iff)

lemma py_find_marker:
  assumes "\<not> occurs marker_key (before @ marker_tag)"
  shows "py_find (before @ marker_key @ rest) marker_key = int (length before)"
proof -
  let ?pg = "before @ marker_key @ rest"
  have hit: "take (length marker_key) (drop (length before) ?pg) = marker_key" by simp
  have first: "\<forall>m<length before. take (length marker_key) (drop m ?pg) \<noteq> marker_key"
  proof (intro allI impI notI)
    fix m assume m: "m < length before"
      and eq: "take (length marker_key) (drop m ?pg) = marker_key"
    have "take (length marker_key) (drop m ?pg)
            = take (length marker_key) (drop m (before @ marker_tag))"
      using m by (simp add: marker_key_eq length_marker_tag)
    with eq have "take (length marker_key) (drop m (before @ marker_tag)) = marker_key"
      by simp
    moreover have "m \<le> length (before @ marker_tag)" using m by simp
    ultimately have "occurs marker_key (before @ marker_tag)"
      unfolding occurs_iff by blast
    with assms show False by simp
  qed
  have "find_from marker_key ?pg 0 = int (0 + length before)"
    using hit _ first by (rule find_from_hit) simp
  then show ?thesis by (simp add: py_find_def)
qed

lemma depth_Nil: "depth [] = 0"
  by (simp add: depth_def)

lemma depth_Cons:
  "depth (c # cs) =
     (if c = open_brace then 1 else if c = close_brace then - 1 else 0) + depth cs"
  using braces_neq by (simp add: depth_def)

lemma brace_loop_no_raise: "stack \<noteq> [] \<Longrightarrow> brace_loop cs j stack \<noteq> Inl e"
  by (induction cs arbitrary: j stack) (auto simp: Let_def)

lemma brace_loop_exhausts:
  "\<forall>n\<le>length cs. 0 < int (length stack) + depth (take n cs) \<Longrightarrow>
   brace_loop cs j stack = Inr None"
proof (induction cs arbitrary: j stack)
  case Nil
  show ?case by simp
next
  case (Cons c cs)
  have step: "0 < int (length stack) + depth (c # take n cs)" if "n \<le> length cs" for n
  proof -
    from that have "Suc n \<le> length (c # cs)" by simp
    with Cons.prems have "0 < int (length stack) + depth (take (Suc n) (c # cs))" by blast
    then show ?thesis by simp
  qed
  show ?case
  proof (cases "c = open_brace")
    case True
    have "\<forall>n\<le>length cs. 0 < int (length (stack @ [open_brace])) + depth (take n cs)"
    proof (intro allI impI)
      fix n assume "n \<le> length cs"
      from step [OF this] True
      show "0 < int (length (stack @ [open_brace])) + depth (take n cs)"
        by (simp add: depth_Cons)
    qed
    then have "brace_loop cs (Suc j) (stack @ [open_brace]) = Inr None" by (rule Cons.IH)
    with True show ?thesis by simp
  next
    case False
    show ?thesis
    proof (cases "c = close_brace")
      case True
      have "0 < int (length stack) + depth (c # take 0 cs)" by (rule step) simp
      with True braces_neq have two: "2 \<le> length stack"
        by (simp add: depth_Cons depth_Nil)
      then obtain ys y where st: "stack = ys @ [y]" and ys: "ys \<noteq> []"
        by (cases stack rule: rev_cases) (auto simp: Suc_le_eq)
      have "\<forall>n\<le>length cs. 0 < int (length (butlast stack)) + depth (take n cs)"
      proof (intro allI impI)
        fix n assume "n \<le> length cs"
        from step [OF this] True braces_neq
        show "0 < int (length (butlast stack)) + depth (take n cs)"
          by (simp add: depth_Cons st)
      qed
      then have "brace_loop cs (Suc j) (butlast stack) = Inr None" by (rule Cons.IH)
      with True braces_neq st ys show ?thesis by (simp add: Let_def)
    next
      case other: False
      have "\<forall>n\<le>length cs. 0 < int (length stack) + depth (take n cs)"
      proof (intro allI impI)
        fix n assume "n \<le> length cs"
        from step [OF this] False other
        show "0 < int (length stack) + depth (take n cs)"
          by (simp add: depth_Cons)
      qed
      then have "brace_loop cs (Suc j) stack = Inr None" by (rule Cons.IH)
      with False other show ?thesis by simp
    qed
  qed
qed

lemma brace_loop_closes:
  "stack \<noteq> [] \<Longrightarrow> int (length stack) + depth a = 0 \<Longrightarrow>
   \<forall>n<length a. 0 < int (length stack) + depth (take n a) \<Longrightarrow>
   brace_loop (a @ b) j stack = Inr (Some (j + length a))"
proof (induction a arbitrary: j stack)
  case Nil
  then show ?case by (simp add: depth_Nil)
next
  case (Cons c a)
  have step: "0 < int (length stack) + depth (c # take n a)" if "n < length a" for n
  proof -
    from that have "Suc n < length (c # a)" by simp
    with Cons.prems(3) have "0 < int (length stack) + depth (take (Suc n) (c # a))" by blast
    then show ?thesis by simp
  qed
  show ?case
  proof (cases "c = open_brace")
    case True
    have 1: "stack @ [open_brace] \<noteq> []" by simp
    have 2: "int (length (stack @ [open_brace])) + depth a = 0"
      using Cons.prems(2) True by (simp add: depth_Cons)
    have 3: "\<forall>n<length a. 0 < int (length (stack @ [open_brace])) + depth (take n a)"
    proof (intro allI impI)
      fix n assume "n < length a"
      from step [OF this] True
      show "0 < int (length (stack @ [open_brace])) + depth (take n a)"
        by (simp add: depth_Cons)
    qed
    have "brace_loop (a @ b) (Suc j) (stack @ [open_brace]) = Inr (Some (Suc j + length a))"
      using 1 2 3 by (rule Cons.IH)
    with True show ?thesis by simp
  next
    case False
    show ?thesis
    proof (cases "c = close_brace")
      case True
      from Cons.prems(1) obtain ys y where st: "stack = ys @ [y]"
        by (cases stack rule: rev_cases) auto
      have tot: "int (length ys) + depth a = 0"
        using Cons.prems(2) True braces_neq by (simp add: depth_Cons st)
      show ?thesis
      proof (cases "ys = []")
        case single: True
        have "a = []"
        proof (rule ccontr)
          assume "a \<noteq> []"
          then have "0 < length a" by simp
          from step [OF this] True braces_neq single show False
            by (simp add: depth_Cons depth_Nil st)
        qed
        with True braces_neq st single show ?thesis by (simp add: Let_def)
      next
        case more: False
        have 3: "\<forall>n<length a. 0 < int (length ys) + depth (take n a)"
        proof (intro allI impI)
          fix n assume "n < length a"
          from step [OF this] True braces_neq
          show "0 < int (length ys) + depth (take n a)"
            by (simp add: depth_Cons st)
        qed
        have "brace_loop (a @ b) (Suc j) ys = Inr (Some (Suc j + length a))"
          using more tot 3 by (rule Cons.IH)
        with True braces_neq st more show ?thesis by (simp add: Let_def)
      qed
    next
      case other: False
      have 2: "int (length stack) + depth a = 0"
        using Cons.prems(2) False other by (simp add: depth_Cons)
      have 3: "\<forall>n<length a. 0 < int (length stack) + depth (take n a)"
      proof (intro allI impI)
        fix n assume "n < length a"
        from step [OF this] False other
        show "0 < int (length stack) + depth (take n a)"
          by (simp add: depth_Cons)
      qed
      have "brace_loop (a @ b) (Suc j) stack = Inr (Some (Suc j + length a))"
        using Cons.prems(1) 2 3 by (rule Cons.IH)
      with False other show ?thesis by simp
    qed
  qed
qed

lemma extract_absent:
  "py_find pg marker_key = - 1 \<Longrightarrow> extract_realestates loads pg = Inr (JArray [])"
  unfolding extract_realestates_def Let_def marker_key_def [symmetric] by simp

lemma extract_found:
  "py_find pg marker_key = int s \<Longrightarrow>
   extract_realestates loads pg =
     (case brace_loop (drop (s + 19) pg) (s + 19) [open_brace] of
        Inl e \<Rightarrow> Inl e
      | Inr None \<Rightarrow> Inr (JArray [])
      | Inr (Some end_ix) \<Rightarrow>
          (case loads (py_slice pg (s + 18) end_ix) of
             None \<Rightarrow> Inr (JArray [])
           | Some data \<Rightarrow>
               (case py_get data (ascii ''realEstates'') (JArray []) of
                  Inl e \<Rightarrow> Inr (JArray [])
                | Inr v \<Rightarrow> Inr v)))"
  unfolding extract_realestates_def Let_def marker_key_def [symmetric] marker_tag_def [symmetric]
    length_marker_key length_marker_tag
  by (simp add: nat_add_distrib add.commute cong: sum.case_cong option.case_cong)

lemma extract_at:
  assumes first: "\<not> occurs marker_key (before @ marker_tag)"
    and bal: "balanced_block blk"
  shows "extract_realestates loads (before @ marker_tag @ blk @ after) =
     (case loads blk of
        None \<Rightarrow> Inr (JArray [])
      | Some data \<Rightarrow>
          (case py_get data (ascii ''realEstates'') (JArray []) of
             Inl e \<Rightarrow> Inr (JArray [])
           | Inr v \<Rightarrow> Inr v))"
proof -
  from bal obtain rest where blk: "blk = open_brace # rest"
    by (cases blk) (auto simp: balanced_block_def)
  let ?pg = "before @ marker_tag @ blk @ after"
  have pg_eq: "?pg = before @ marker_key @ (rest @ after)"
    by (simp add: blk marker_key_eq)
  have start: "py_find ?pg marker_key = int (length before)"
    unfolding pg_eq using first by (rule py_find_marker)
  have d0: "int (length [open_brace]) + depth rest = 0"
    using bal by (simp add: balanced_block_def blk depth_Cons)
  have d1: "\<forall>n<length rest. 0 < int (length [open_brace]) + depth (take n rest)"
  proof (intro allI impI)
    fix n assume "n < length rest"
    then have "Suc n \<in> set [1..<length blk]" unfolding set_upt by (simp add: blk)
    with bal have "0 < depth (take (Suc n) blk)"
      by (simp add: balanced_block_def list_all_iff)
    then show "0 < int (length [open_brace]) + depth (take n rest)"
      by (simp add: blk depth_Cons)
  qed
  have loop: "brace_loop (rest @ after) (length before + 19) [open_brace]
                = Inr (Some (length before + 19 + length rest))"
    using _ d0 d1 by (rule brace_loop_closes) simp
  have "drop (length before + length marker_key) (before @ marker_key @ (rest @ after))
          = rest @ after" by simp
  then have dr: "drop (length before + 19) ?pg = rest @ after"
    by (simp only: pg_eq length_marker_key)
  have "take (length blk) (drop (length before + length marker_tag) ?pg) = blk" by simp
  then have sl: "py_slice ?pg (length before + 18) (length before + 19 + length rest) = blk"
    by (simp add: py_slice_def blk length_marker_tag)
  show ?thesis
    by (simp only: extract_found [OF start] dr loop sl sum.case option.case)
qed

lemma extract_no_raise: "extract_realestates loads pg \<noteq> Inl e"
proof (cases "py_find pg marker_key = - 1")
  case True
  then show ?thesis by (simp add: extract_absent)
next
  case False
  have "- 1 \<le> py_find pg marker_key"
    using find_from_ge [of marker_key pg 0] by (auto simp: py_find_def)
  with False have "0 \<le> py_find pg marker_key" by linarith
  then obtain s where "py_find pg marker_key = int s"
    using nonneg_int_cases by blast
  then show ?thesis
    using brace_loop_no_raise [of "[open_brace]" "drop (s + 19) pg" "s + 19" e]
    by (auto simp: extract_found split: sum.splits option.splits)
qed

text \<open>
  Claim C1, as amended. Let \<open>s\<close> be a serialization of a JSON object with a list field
  \<open>realEstates\<close> (\<open>loads\<close> reads \<open>s\<close> back as that object). If \<open>s\<close> is a balanced block
  for the brace count, which ignores string literals, and the marker does not already
  occur in the noise before the payload followed by the key, then
  \<open>extract_realestates\<close> on noise, key, \<open>s\<close>, noise returns exactly that list.
\<close>

theorem extract_round_trip:
  assumes "loads s = Some (JObject kvs)"
    and "map_of kvs (ascii ''realEstates'') = Some (JArray xs)"
    and "balanced_block s"
    and "\<not> occurs marker_key (before @ marker_tag)"
  shows "extract_realestates loads (before @ marker_tag @ s @ after) = Inr (JArray xs)"
  using assms by (simp add: extract_at)

text \<open>
  Claim C2. A page in which the marker does not occur gives the empty list, and so does
  a page in which the depth never returns to zero after the first marker; in both
  cases the result is a value (\<open>Inr\<close>), not an exception.
\<close>

theorem extract_empty_without_payload:
  "(\<not> occurs marker_key pg \<longrightarrow> extract_realestates loads pg = Inr (JArray [])) \<and>
   (\<not> occurs marker_key (before @ marker_tag) \<and> never_closes rest \<longrightarrow>
      extract_realestates loads (before @ marker_key @ rest) = Inr (JArray []))"
proof (intro conjI impI)
  assume "\<not> occurs marker_key pg"
  then have "py_find pg marker_key = - 1" by (rule py_find_absent)
  then show "extract_realestates loads pg = Inr (JArray [])"
    by (rule extract_absent)
next
  assume h: "\<not> occurs marker_key (before @ marker_tag) \<and> never_closes rest"
  let ?pg = "before @ marker_key @ rest"
  have start: "py_find ?pg marker_key = int (length before)"
    using h by (simp add: py_find_marker)
  have "\<forall>n\<le>length rest. 0 < int (length [open_brace]) + depth (take n rest)"
    using h unfolding never_closes_def list_all_iff set_upt by (auto simp: less_Suc_eq_le)
  then have loop: "brace_loop rest (length before + 19) [open_brace] = Inr None"
    by (rule brace_loop_exhausts)
  have "drop (length before + length marker_key) ?pg = rest" by simp
  then have dr: "drop (length before + 19) ?pg = rest"
    by (simp only: length_marker_key)
  show "extract_realestates loads ?pg = Inr (JArray [])"
    by (simp only: extract_found [OF start] dr loop sum.case option.case)
qed

text \<open>
  Claim C8, as amended. When a balanced block is sliced after the first marker and
  parses to an object, \<open>extract_realestates\<close> returns the value of the field
  \<open>realEstates\<close> whatever it is, and the empty list if the field is absent.
\<close>

theorem extract_result_selection:
  assumes "\<not> occurs marker_key (before @ marker_tag)"
    and "balanced_block blk"
    and "loads blk = Some (JObject kvs)"
  shows "extract_realestates loads (before @ marker_tag @ blk @ after) =
     Inr (case map_of kvs (ascii ''realEstates'') of None \<Rightarrow> JArray [] | Some v \<Rightarrow> v)"
  using assms by (simp add: extract_at)


text \<open>The amended round trip at a concrete page.\<close>

theorem extract_round_trip_witness:
  \<open>json_loads (ascii ''{"realEstates": [{"id": 7}]}'')
     = Some (JObject [(ascii ''realEstates'', JArray [JObject [(ascii ''id'', JInt 7)]])]) \<and>
   extract_realestates json_loads
     (ascii ''<html>'' @ marker_tag @ ascii ''{"realEstates": [{"id": 7}]}'' @ ascii ''</html>}'')
     = Inr (JArray [JObject [(ascii ''id'', JInt 7)]])\<close>
proof -
  have 1: \<open>json_loads (ascii ''{"realEstates": [{"id": 7}]}'')
     = Some (JObject [(ascii ''realEstates'', JArray [JObject [(ascii ''id'', JInt 7)]])])\<close>
    by code_simp
  have 2: "map_of [(ascii ''realEstates'', JArray [JObject [(ascii ''id'', JInt 7)]])]
             (ascii ''realEstates'') = Some (JArray [JObject [(ascii ''id'', JInt 7)]])"
    by simp
  have 3: \<open>balanced_block (ascii ''{"realEstates": [{"id": 7}]}'')\<close>
    by code_simp
  have 4: "\<not> occurs marker_key (ascii ''<html>'' @ marker_tag)"
    by code_simp
  from extract_round_trip [where loads = json_loads and after = "ascii ''</html>}''", OF 1 2 3 4] 1
  show ?thesis by blast
qed

text \<open>
  The round trip as first stated fails: a brace inside a string value leaves the
  depth above zero to the end of the page, and a marker inside the leading noise is
  found first; both pages give the empty list although the payload holds a record.
\<close>

theorem extract_round_trip_counterexample:
  \<open>json_loads (ascii ''{"realEstates": [{"title": "{"}]}'')
     = Some (JObject [(ascii ''realEstates'',
          JArray [JObject [(ascii ''title'', JString (ascii ''{''))]])]) \<and>
   extract_realestates json_loads
     (ascii ''<html>'' @ marker_tag @ ascii ''{"realEstates": [{"title": "{"}]}'' @ ascii ''</html>'')
     = Inr (JArray []) \<and>
   json_loads (ascii ''{"realEstates": [1]}'')
     = Some (JObject [(ascii ''realEstates'', JArray [JInt 1])]) \<and>
   extract_realestates json_loads
     (marker_key @ marker_tag @ ascii ''{"realEstates": [1]}'' @ ascii ''</html>'')
     = Inr (JArray [])\<close>
  by code_simp

text \<open>Both cases of claim C2 at concrete pages.\<close>

theorem extract_empty_without_payload_witness:
  \<open>extract_realestates json_loads (ascii ''<html>no payload</html>'') = Inr (JArray []) \<and>
   extract_realestates json_loads
     (ascii ''<p>'' @ marker_key @ ascii ''"realEstates": [{"id": 1}, {"id"'') = Inr (JArray [])\<close>
proof -
  have 1: "\<not> occurs marker_key (ascii ''<html>no payload</html>'')"
    by code_simp
  have 2: \<open>\<not> occurs marker_key (ascii ''<p>'' @ marker_tag) \<and>
           never_closes (ascii ''"realEstates": [{"id": 1}, {"id"'')\<close>
    by code_simp
  from extract_empty_without_payload
         [of "ascii ''<html>no payload</html>''" json_loads "ascii ''<p>''"
             \<open>ascii ''"realEstates": [{"id": 1}, {"id"''\<close>] 1 2
  show ?thesis by blast
qed

text \<open>Claim C8 as amended, with the field absent and with the field present.\<close>

theorem extract_result_selection_witness:
  \<open>extract_realestates json_loads
     (ascii ''<html>'' @ marker_tag @ ascii ''{"total": 0}'' @ ascii ''</html>'')
     = Inr (JArray []) \<and>
   extract_realestates json_loads
     (ascii ''<html>'' @ marker_tag @ ascii ''{"realEstates": [{"id": 7}]}'' @ ascii ''</html>'')
     = Inr (JArray [JObject [(ascii ''id'', JInt 7)]])\<close>
proof -
  have 1: "\<not> occurs marker_key (ascii ''<html>'' @ marker_tag)"
    by code_simp
  have 2: \<open>balanced_block (ascii ''{"total": 0}'')\<close>
    by code_simp
  have 3: \<open>json_loads (ascii ''{"total": 0}'') = Some (JObject [(ascii ''total'', JInt 0)])\<close>
    by code_simp
  have 4: \<open>balanced_block (ascii ''{"realEstates": [{"id": 7}]}'')\<close>
    by code_simp
  have 5: \<open>json_loads (ascii ''{"realEstates": [{"id": 7}]}'')
     = Some (JObject [(ascii ''realEstates'', JArray [JObject [(ascii ''id'', JInt 7)]])])\<close>
    by code_simp
  have 6: "(case map_of [(ascii ''total'', JInt 0)] (ascii ''realEstates'') of
              None \<Rightarrow> JArray [] | Some v \<Rightarrow> v) = JArray []"
    by code_simp
  from extract_result_selection [where loads = json_loads and after = "ascii ''</html>''", OF 1 2 3]
       extract_result_selection [where loads = json_loads and after = "ascii ''</html>''", OF 1 4 5] 6
  show ?thesis by simp
qed

text \<open>
  The returned value is not always a sequence: a payload whose \<open>realEstates\<close> is the
  number 5 makes the extractor return 5.
\<close>

theorem extract_result_selection_counterexample:
  \<open>json_loads (ascii ''{"realEstates": 5}'')
     = Some (JObject [(ascii ''realEstates'', JInt 5)]) \<and>
   extract_realestates json_loads
     (ascii ''<html>'' @ marker_tag @ ascii ''{"realEstates": 5}'' @ ascii ''</html>'')
     = Inr (JInt 5)\<close>
  by code_simp

section \<open>The normalizer\<close>

lemma key_facts:
  "ascii ''images'' \<notin> set text_keys"
  "ascii ''types'' \<notin> set text_keys"
  "ascii ''image_urls'' \<notin> set text_keys"
  "ascii ''types'' \<noteq> ascii ''image_urls''"
  "distinct text_keys"
  by (simp_all add: text_keys_def ascii_def)

lemma decode_text_JString: "decode_text (JString s) = JString (redecode s)"
  by (cases s) (auto simp: decode_text_def redecode_def latin1_encode_def split: option.splits)

lemma decode_text_str:
  "truthy v \<Longrightarrow> isinstance_str (decode_text v) \<Longrightarrow> \<exists>s. v = JString s \<and> s \<noteq> []"
  by (cases v) (auto simp: decode_text_def split: option.splits)

lemma decode_text_keeps_str: "isinstance_str v \<Longrightarrow> isinstance_str (decode_text v)"
  by (cases v) (simp_all add: decode_text_JString)

lemma decode_fields_other:
  "k \<notin> set keys \<Longrightarrow> map_of (decode_fields keys d) k = map_of d k"
  by (induction keys arbitrary: d) (auto simp: update_conv' split: option.splits)

lemma decode_fields_hit:
  "k \<in> set keys \<Longrightarrow> distinct keys \<Longrightarrow>
   map_of (decode_fields keys d) k
     = map_option (\<lambda>v. if v \<noteq> JNull then decode_text v else v) (map_of d k)"
proof (induction keys arbitrary: d)
  case Nil
  then show ?case by simp
next
  case (Cons key keys)
  show ?case
  proof (cases "k = key")
    case True
    then have "k \<notin> set keys" using Cons.prems by simp
    then show ?thesis
      using True by (auto simp: decode_fields_other update_conv' split: option.splits)
  next
    case False
    then have "k \<in> set keys" "distinct keys" using Cons.prems by auto
    from Cons.IH [OF this] False show ?thesis
      by (auto simp: update_conv' split: option.splits)
  qed
qed

lemma format_estate_alt:
  "format_estate e =
    (case py_iter (images_value e) of
       Inl x \<Rightarrow> Inl x
     | Inr imgs \<Rightarrow>
         (case image_urls_of imgs of
            Inl x \<Rightarrow> Inl x
          | Inr urls \<Rightarrow>
              (case flatten_types (types_value e) of
                 Inl x \<Rightarrow> Inl x
               | Inr j \<Rightarrow>
                   Inr (AList.update (ascii ''types'') (JString j)
                         (AList.update (ascii ''image_urls'') (JArray (map JString urls))
                           (decode_fields text_keys e))))))"
proof -
  have i: "map_of (decode_fields text_keys e) (ascii ''images'') = map_of e (ascii ''images'')"
    by (simp add: decode_fields_other key_facts)
  have t: "map_of (AList.update (ascii ''image_urls'') U (decode_fields text_keys e))
             (ascii ''types'') = map_of e (ascii ''types'')" for U
    by (simp add: update_conv' decode_fields_other key_facts)
  show ?thesis
    unfolding format_estate_def Let_def text_keys_def [symmetric] i t
      images_value_def types_value_def flatten_types_def
    by (auto split: sum.splits)
qed

lemma format_estate_Inr:
  assumes "format_estate e = Inr r"
  obtains imgs urls j where
    "py_iter (images_value e) = Inr imgs"
    "image_urls_of imgs = Inr urls"
    "flatten_types (types_value e) = Inr j"
    "r = AList.update (ascii ''types'') (JString j)
           (AList.update (ascii ''image_urls'') (JArray (map JString urls))
             (decode_fields text_keys e))"
  using assms unfolding format_estate_alt by (auto split: sum.splits)

lemma map_of_result:
  "map_of (AList.update (ascii ''types'') T (AList.update (ascii ''image_urls'') U d)) k =
     (if k = ascii ''types'' then Some T
      else if k = ascii ''image_urls'' then Some U else map_of d k)"
  by (simp add: update_conv')

lemma image_urls_of_expected:
  "image_urls_of imgs = Inr urls \<Longrightarrow> urls = expected_image_urls imgs"
proof (induction imgs arbitrary: urls)
  case Nil
  then show ?case by simp
next
  case (Cons img imgs)
  then show ?case
    by (cases img) (auto split: sum.splits option.splits json.splits if_splits)
qed

lemma type_names_strs:
  "type_names ts = Inr ns \<Longrightarrow> list_all isinstance_str ns \<Longrightarrow>
   ns = map JString (expected_type_names ts)"
proof (induction ts arbitrary: ns)
  case Nil
  then show ?case by simp
next
  case (Cons t ts)
  then show ?case
    by (cases t)
      (auto split: sum.splits option.splits json.splits if_splits
        simp: decode_text_JString dest: decode_text_str)
qed

lemma py_join_strs: "py_join sep (map JString ss) = Inr (joined sep ss)"
  by (induction sep ss rule: joined.induct) auto

lemma py_join_Inr_strs: "py_join sep ns = Inr r \<Longrightarrow> list_all isinstance_str ns"
  by (induction sep ns arbitrary: r rule: py_join.induct) (auto split: sum.splits)

lemma flatten_types_list:
  assumes "flatten_types (JArray ts) = Inr r"
  shows "r = joined (ascii '', '') (expected_type_names ts)"
proof (cases "ts = []")
  case True
  with assms show ?thesis by (simp add: flatten_types_def)
next
  case False
  with assms obtain ns where ns: "type_names ts = Inr ns" "py_join (ascii '', '') ns = Inr r"
    by (auto simp: flatten_types_def split: sum.splits)
  from ns(2) have "list_all isinstance_str ns" by (rule py_join_Inr_strs)
  with ns(1) have "ns = map JString (expected_type_names ts)" by (rule type_names_strs)
  with ns(2) show ?thesis by (simp add: py_join_strs)
qed

lemma flatten_types_nonlist: "\<not> isinstance_list v \<Longrightarrow> flatten_types v = Inr []"
  by (simp add: flatten_types_def)

lemma image_urls_of_ok:
  "list_all (entry_ok (ascii ''file_name'')) imgs \<Longrightarrow> \<exists>urls. image_urls_of imgs = Inr urls"
proof (induction imgs)
  case Nil
  show ?case by simp
next
  case (Cons img imgs)
  then obtain urls where "image_urls_of imgs = Inr urls" by auto
  moreover from Cons.prems have "entry_ok (ascii ''file_name'') img" by simp
  ultimately show ?case
    by (cases img) (auto simp: entry_ok_def split: option.splits json.splits)
qed

lemma type_names_ok:
  "list_all (entry_ok (ascii ''name'')) ts \<Longrightarrow>
   \<exists>ns. type_names ts = Inr ns \<and> list_all isinstance_str ns"
proof (induction ts)
  case Nil
  show ?case by simp
next
  case (Cons t ts)
  then obtain ns where "type_names ts = Inr ns" "list_all isinstance_str ns" by auto
  moreover from Cons.prems have "entry_ok (ascii ''name'') t" by simp
  ultimately show ?case
    by (cases t)
      (auto simp: entry_ok_def decode_text_keeps_str split: option.splits json.splits)
qed

lemma py_join_ok: "list_all isinstance_str ns \<Longrightarrow> \<exists>r. py_join sep ns = Inr r"
  by (induction sep ns rule: py_join.induct) auto

section \<open>The paginator\<close>

lemma get_realestates_page_trace:
  "get_realestates_page fetch loads p tr = (page_records fetch loads p, tr @ [p])"
  by (auto simp: get_realestates_page_def page_records_def Let_def split: sum.splits)

lemma pages_loop_prefix:
  assumes G: "\<And>p tr. get_page p tr = (res p, tr @ [p])"
  shows "\<forall>p\<in>set ps. res p = Inr (recs p) \<and> recs p \<noteq> [] \<Longrightarrow>
   pages_loop get_page (ps @ rest) acc bound tr =
   pages_loop get_page rest (acc @ concat (map recs ps))
     (if ps = [] then bound else Some (last ps, recs (last ps))) (tr @ ps)"
proof (induction ps arbitrary: acc bound tr)
  case Nil
  show ?case by simp
next
  case (Cons p ps)
  have p: "res p = Inr (recs p)" "recs p \<noteq> []"
    using Cons.prems by auto
  have rest: "\<forall>q\<in>set ps. res q = Inr (recs q) \<and> recs q \<noteq> []"
    using Cons.prems by auto
  have step: "pages_loop get_page ((p # ps) @ rest) acc bound tr
                = pages_loop get_page (ps @ rest) (acc @ recs p) (Some (p, recs p)) (tr @ [p])"
    using p G [of p tr] by simp
  show ?case
    unfolding step Cons.IH [OF rest] by simp
qed

lemmas page_loop_prefix =
  pages_loop_prefix [where get_page = "get_realestates_page fetch loads"
    and res = "page_records fetch loads", OF get_realestates_page_trace] for fetch loads

section \<open>The claims on the normalizer and the paginator\<close>

text \<open>
  Claim C5. On a record for which \<open>format_estate\<close> returns, each of the four text fields
  that holds a string comes out as that string's code points encoded one byte per
  character and decoded as UTF-8, and as the original string whenever that fails (a
  code point above 255, or bytes that are not valid UTF-8).
\<close>

theorem text_fields_redecoded:
  assumes "format_estate e = Inr r"
    and "k \<in> set text_keys"
    and "map_of e k = Some (JString s)"
  shows "map_of r k =
     Some (JString (case Option.bind (latin1_encode s) utf8_decode of
                      Some t \<Rightarrow> t | None \<Rightarrow> s))"
proof -
  from assms(1) obtain urls j where
    r: "r = AList.update (ascii ''types'') (JString j)
           (AList.update (ascii ''image_urls'') (JArray (map JString urls))
             (decode_fields text_keys e))"
    by (rule format_estate_Inr)
  have k: "k \<noteq> ascii ''types''" "k \<noteq> ascii ''image_urls''"
    using assms(2) key_facts by auto
  have "map_of r k = map_of (decode_fields text_keys e) k"
    unfolding r map_of_result using k by simp
  also have "\<dots> = Some (decode_text (JString s))"
    using assms(2,3) key_facts(5) by (simp add: decode_fields_hit)
  finally show ?thesis by (simp add: decode_text_JString redecode_def)
qed

text \<open>
  Claim C6. The output \<open>image_urls\<close> holds, in input order, \<open>BASE_IMAGE_URL\<close> + file name
  + \<open>&w=2048&q=75\<close> for each entry of the \<open>images\<close> list with a non-empty file name and
  nothing for the other entries; it is empty when \<open>images\<close> is absent.
\<close>

theorem image_urls_derived:
  assumes "format_estate e = Inr r"
  shows "(map_of e (ascii ''images'') = Some (JArray imgs) \<longrightarrow>
            map_of r (ascii ''image_urls'')
              = Some (JArray (map JString (expected_image_urls imgs)))) \<and>
         (map_of e (ascii ''images'') = None \<longrightarrow>
            map_of r (ascii ''image_urls'') = Some (JArray []))"
proof -
  from assms obtain xs urls j where
    it: "py_iter (images_value e) = Inr xs"
    and u: "image_urls_of xs = Inr urls"
    and r: "r = AList.update (ascii ''types'') (JString j)
           (AList.update (ascii ''image_urls'') (JArray (map JString urls))
             (decode_fields text_keys e))"
    by (rule format_estate_Inr)
  have m: "map_of r (ascii ''image_urls'') = Some (JArray (map JString urls))"
    unfolding r map_of_result using key_facts(4) by simp
  from u have e: "urls = expected_image_urls xs" by (rule image_urls_of_expected)
  show ?thesis
    using it m e by (auto simp: images_value_def)
qed

text \<open>
  Claim C7. If \<open>types\<close> is a list, the output \<open>types\<close> is the re-decoded names of the
  entries with a non-empty name, joined by a comma and a space; if \<open>types\<close> is absent
  or is any value that is not a list, it is the empty string.
\<close>

theorem types_flattened:
  assumes "format_estate e = Inr r"
  shows "(map_of e (ascii ''types'') = Some (JArray ts) \<longrightarrow>
            map_of r (ascii ''types'')
              = Some (JString (joined (ascii '', '') (expected_type_names ts)))) \<and>
         (map_of e (ascii ''types'') = None \<longrightarrow>
            map_of r (ascii ''types'') = Some (JString [])) \<and>
         (map_of e (ascii ''types'') = Some v \<and> \<not> isinstance_list v \<longrightarrow>
            map_of r (ascii ''types'') = Some (JString []))"
proof -
  from assms obtain urls j where
    f: "flatten_types (types_value e) = Inr j"
    and r: "r = AList.update (ascii ''types'') (JString j)
           (AList.update (ascii ''image_urls'') (JArray (map JString urls))
             (decode_fields text_keys e))"
    by (rule format_estate_Inr)
  have m: "map_of r (ascii ''types'') = Some (JString j)"
    unfolding r map_of_result by simp
  have 1: "j = joined (ascii '', '') (expected_type_names ts)"
    if "map_of e (ascii ''types'') = Some (JArray ts)"
    using f that by (simp add: types_value_def flatten_types_list)
  have 2: "j = []" if "map_of e (ascii ''types'') = None"
    using f that by (simp add: types_value_def flatten_types_def)
  have 3: "j = []" if "map_of e (ascii ''types'') = Some v" "\<not> isinstance_list v"
    using f that by (simp add: types_value_def flatten_types_nonlist)
  show ?thesis using m 1 2 3 by auto
qed

text \<open>
  Claim C10. Whenever \<open>format_estate\<close> returns, the record returned binds \<open>image_urls\<close> to
  a list of strings and \<open>types\<close> to a string, both the values derived from \<open>images\<close>
  and \<open>types\<close>, whatever the input held under those two keys.
\<close>

theorem derived_keys_present:
  assumes "format_estate e = Inr r"
  shows "\<exists>imgs urls j.
           py_iter (images_value e) = Inr imgs \<and> image_urls_of imgs = Inr urls \<and>
           flatten_types (types_value e) = Inr j \<and>
           map_of r (ascii ''image_urls'') = Some (JArray (map JString urls)) \<and>
           map_of r (ascii ''types'') = Some (JString j)"
proof -
  from assms obtain xs urls j where
    it: "py_iter (images_value e) = Inr xs"
    and u: "image_urls_of xs = Inr urls"
    and f: "flatten_types (types_value e) = Inr j"
    and r: "r = AList.update (ascii ''types'') (JString j)
           (AList.update (ascii ''image_urls'') (JArray (map JString urls))
             (decode_fields text_keys e))"
    by (rule format_estate_Inr)
  have "map_of r (ascii ''image_urls'') = Some (JArray (map JString urls))"
    unfolding r map_of_result using key_facts(4) by simp
  moreover have "map_of r (ascii ''types'') = Some (JString j)"
    unfolding r map_of_result by simp
  ultimately show ?thesis using it u f by blast
qed

text \<open>
  Claim C4, as amended. \<open>format_estate\<close> returns a record, raising nothing, on every
  input whose \<open>images\<close> is absent or a list of mappings with a file name that is
  absent, falsy or a string, and whose \<open>types\<close>, if it is a list, is a list of mappings
  with a name that is absent, falsy or a string.
\<close>

theorem format_estate_returns_on_wellformed:
  assumes "images_wf e" and "types_wf e"
  shows "\<exists>r. format_estate e = Inr r"
proof -
  from assms(1) obtain imgs where
    it: "py_iter (images_value e) = Inr imgs"
    and ok: "list_all (entry_ok (ascii ''file_name'')) imgs"
    by (auto simp: images_wf_def images_value_def split: option.splits json.splits)
  from image_urls_of_ok [OF ok] obtain urls where u: "image_urls_of imgs = Inr urls" ..
  have "\<exists>j. flatten_types (types_value e) = Inr j"
  proof (cases "truthy (types_value e) \<and> isinstance_list (types_value e)")
    case False
    then show ?thesis by (auto simp: flatten_types_def)
  next
    case True
    then obtain ts where tv: "types_value e = JArray ts"
      by (cases "types_value e") auto
    with assms(2) have "list_all (entry_ok (ascii ''name'')) ts"
      by (auto simp: types_wf_def types_value_def split: option.splits json.splits)
    from type_names_ok [OF this] obtain ns where
      ns: "type_names ts = Inr ns" "list_all isinstance_str ns" by blast
    from py_join_ok [OF ns(2)] obtain j where "py_join (ascii '', '') ns = Inr j" ..
    with ns(1) tv True show ?thesis by (auto simp: flatten_types_def)
  qed
  then obtain j where "flatten_types (types_value e) = Inr j" ..
  with it u show ?thesis by (simp add: format_estate_alt)
qed

text \<open>
  Claim C3. Let \<open>max_pages = m\<close> be at least 1, let the pages 1 to \<open>k\<close> yield non-empty
  record lists and, if \<open>k < m\<close>, let page \<open>k + 1\<close> yield the empty list. Then
  \<open>get_all_realestates\<close> requests exactly the pages 1, 2, ... up to \<open>k + 1\<close>, or up to
  \<open>m\<close> when no page is empty, in this order, and returns the records of the pages 1 to
  \<open>k\<close> concatenated in page order.
\<close>

theorem pagination:
  assumes "1 \<le> m" and "0 \<le> k" and "k \<le> m"
    and "\<forall>p\<in>{1..k}. page_records fetch loads p = Inr (recs p) \<and> recs p \<noteq> []"
    and "k < m \<longrightarrow> page_records fetch loads (k + 1) = Inr []"
  shows "get_all_realestates fetch loads m =
           (Inr (concat (map recs [1..k])), [1..min (k + 1) m])"
proof -
  have pre: "\<forall>p\<in>set [1..k]. page_records fetch loads p = Inr (recs p) \<and> recs p \<noteq> []"
    using assms(4) by simp
  show ?thesis
  proof (cases "k < m")
    case False
    with assms(3) have km: "k = m" by simp
    then have ne: "[1..k] \<noteq> []" using assms(1) by simp
    have "pages_loop (get_realestates_page fetch loads) ([1..k] @ []) [] None []
            = (Inr (concat (map recs [1..k]), Some (last [1..k], recs (last [1..k]))), [1..k])"
      unfolding page_loop_prefix [OF pre] using ne by simp
    then show ?thesis
      using km by (simp add: get_all_realestates_def)
  next
    case True
    have split: "[1..m] = [1..k] @ (k + 1) # [k + 2..m]"
      using upto_split3 [of 1 "k + 1" m] assms(2) True by (simp add: add.commute)
    have empty: "page_records fetch loads (k + 1) = Inr []"
      using assms(5) True by simp
    have "pages_loop (get_realestates_page fetch loads) ([1..k] @ (k + 1) # [k + 2..m]) [] None []
            = (Inr (concat (map recs [1..k]), Some (k + 1, [])), [1..k] @ [k + 1])"
      unfolding page_loop_prefix [OF pre]
      by (simp add: get_realestates_page_trace empty)
    moreover have "[1..k] @ [k + 1] = [1..min (k + 1) m]"
      using upto_rec2 [of 1 "k + 1"] assms(2) True by (simp add: min_def)
    ultimately show ?thesis
      by (simp add: get_all_realestates_def split)
  qed
qed

text \<open>
  Claim C9. With \<open>max_pages\<close> at most 0 the loop body never runs, no page is requested,
  and the call raises UnboundLocalError instead of returning the empty list.
\<close>

theorem no_pages_raises:
  "max_pages \<le> 0 \<Longrightarrow>
   get_all_realestates fetch loads max_pages = (Inl UnboundLocalError, [])"
  by (simp add: get_all_realestates_def)


text \<open>
  Claim C5 at a record whose title is mis-decoded UTF-8 and whose area holds a code
  point above 255.
\<close>

theorem text_fields_redecoded_witness:
  "format_estate
     [(ascii ''title'', JString [208, 159, 209, 128]), (ascii ''area'', JString [1055])]
   = Inr [(ascii ''title'', JString [1055, 1088]), (ascii ''area'', JString [1055]),
          (ascii ''image_urls'', JArray []), (ascii ''types'', JString [])] \<and>
   map_of [(ascii ''title'', JString [1055, 1088]), (ascii ''area'', JString [1055]),
           (ascii ''image_urls'', JArray []), (ascii ''types'', JString [])] (ascii ''title'')
   = Some (JString [1055, 1088]) \<and>
   map_of [(ascii ''title'', JString [1055, 1088]), (ascii ''area'', JString [1055]),
           (ascii ''image_urls'', JArray []), (ascii ''types'', JString [])] (ascii ''area'')
   = Some (JString [1055])"
proof -
  let ?e = "[(ascii ''title'', JString [208, 159, 209, 128]), (ascii ''area'', JString [1055])]"
  let ?r = "[(ascii ''title'', JString [1055, 1088]), (ascii ''area'', JString [1055]),
             (ascii ''image_urls'', JArray []), (ascii ''types'', JString [])]"
  have 1: "format_estate ?e = Inr ?r" by code_simp
  have 2: "ascii ''title'' \<in> set text_keys" "ascii ''area'' \<in> set text_keys"
    by (simp_all add: text_keys_def)
  have 3: "map_of ?e (ascii ''title'') = Some (JString [208, 159, 209, 128])" by simp
  have 4: "map_of ?e (ascii ''area'') = Some (JString [1055])" by (simp add: ascii_def)
  have 5: "(case Option.bind (latin1_encode [208, 159, 209, 128]) utf8_decode of
              Some t \<Rightarrow> t | None \<Rightarrow> [208, 159, 209, 128]) = [1055, 1088]"
    by code_simp
  have 6: "(case Option.bind (latin1_encode [1055]) utf8_decode of
              Some t \<Rightarrow> t | None \<Rightarrow> [1055]) = [1055]"
    by code_simp
  from text_fields_redecoded [OF 1 2(1) 3, unfolded 5]
       text_fields_redecoded [OF 1 2(2) 4, unfolded 6] 1
  show ?thesis by blast
qed

text \<open>
  Claim C6 at the record with the file names \<open>a.jpg\<close> and the empty string, and at a
  record without \<open>images\<close>.
\<close>

theorem image_urls_derived_witness:
  "format_estate
     [(ascii ''images'',
        JArray [JObject [(ascii ''file_name'', JString (ascii ''a.jpg''))],
                JObject [(ascii ''file_name'', JString [])]])]
   = Inr [(ascii ''images'',
            JArray [JObject [(ascii ''file_name'', JString (ascii ''a.jpg''))],
                    JObject [(ascii ''file_name'', JString [])]]),
          (ascii ''image_urls'',
            JArray [JString (BASE_IMAGE_URL @ ascii ''a.jpg'' @ ascii ''&w=2048&q=75'')]),
          (ascii ''types'', JString [])] \<and>
   map_of [(ascii ''images'',
            JArray [JObject [(ascii ''file_name'', JString (ascii ''a.jpg''))],
                    JObject [(ascii ''file_name'', JString [])]]),
          (ascii ''image_urls'',
            JArray [JString (BASE_IMAGE_URL @ ascii ''a.jpg'' @ ascii ''&w=2048&q=75'')]),
          (ascii ''types'', JString [])] (ascii ''image_urls'')
   = Some (JArray [JString (BASE_IMAGE_URL @ ascii ''a.jpg'' @ ascii ''&w=2048&q=75'')]) \<and>
   format_estate [(ascii ''id'', JInt 1)]
   = Inr [(ascii ''id'', JInt 1), (ascii ''image_urls'', JArray []),
          (ascii ''types'', JString [])] \<and>
   map_of [(ascii ''id'', JInt 1), (ascii ''image_urls'', JArray []),
           (ascii ''types'', JString [])] (ascii ''image_urls'')
   = Some (JArray [])"
proof -
  let ?imgs = "[JObject [(ascii ''file_name'', JString (ascii ''a.jpg''))],
                JObject [(ascii ''file_name'', JString [])]]"
  let ?e = "[(ascii ''images'', JArray ?imgs)]"
  let ?r = "[(ascii ''images'', JArray ?imgs),
             (ascii ''image_urls'',
               JArray [JString (BASE_IMAGE_URL @ ascii ''a.jpg'' @ ascii ''&w=2048&q=75'')]),
             (ascii ''types'', JString [])]"
  let ?e' = "[(ascii ''id'', JInt 1)]"
  let ?r' = "[(ascii ''id'', JInt 1), (ascii ''image_urls'', JArray []),
              (ascii ''types'', JString [])]"
  have 1: "format_estate ?e = Inr ?r" by code_simp
  have 2: "map_of ?e (ascii ''images'') = Some (JArray ?imgs)" by simp
  have 3: "expected_image_urls ?imgs = [BASE_IMAGE_URL @ ascii ''a.jpg'' @ ascii ''&w=2048&q=75'']"
    by code_simp
  have 4: "format_estate ?e' = Inr ?r'" by code_simp
  have 5: "map_of ?e' (ascii ''images'') = None" by (simp add: ascii_def)
  from image_urls_derived [OF 1, of ?imgs] 2
  have a: "map_of ?r (ascii ''image_urls'')
             = Some (JArray (map JString (expected_image_urls ?imgs)))" by blast
  from image_urls_derived [OF 4, of "[]"] 5
  have b: "map_of ?r' (ascii ''image_urls'') = Some (JArray [])" by blast
  from a [unfolded 3] b 1 4 show ?thesis by simp
qed

text \<open>
  Claim C7 at the types Villa, Condo and an entry with an empty name, and at a
  \<open>types\<close> value that is a string.
\<close>

theorem types_flattened_witness:
  "format_estate
     [(ascii ''types'',
        JArray [JObject [(ascii ''name'', JString (ascii ''Villa''))],
                JObject [(ascii ''name'', JString (ascii ''Condo''))],
                JObject [(ascii ''name'', JString [])]])]
   = Inr [(ascii ''types'', JString (ascii ''Villa, Condo'')),
          (ascii ''image_urls'', JArray [])] \<and>
   map_of [(ascii ''types'', JString (ascii ''Villa, Condo'')),
           (ascii ''image_urls'', JArray [])] (ascii ''types'')
   = Some (JString (ascii ''Villa, Condo'')) \<and>
   format_estate [(ascii ''types'', JString (ascii ''not-a-list''))]
   = Inr [(ascii ''types'', JString []), (ascii ''image_urls'', JArray [])] \<and>
   map_of [(ascii ''types'', JString []), (ascii ''image_urls'', JArray [])] (ascii ''types'')
   = Some (JString [])"
proof -
  let ?ts = "[JObject [(ascii ''name'', JString (ascii ''Villa''))],
              JObject [(ascii ''name'', JString (ascii ''Condo''))],
              JObject [(ascii ''name'', JString [])]]"
  let ?e = "[(ascii ''types'', JArray ?ts)]"
  let ?r = "[(ascii ''types'', JString (ascii ''Villa, Condo'')),
             (ascii ''image_urls'', JArray [])]"
  let ?e' = "[(ascii ''types'', JString (ascii ''not-a-list''))]"
  let ?r' = "[(ascii ''types'', JString []), (ascii ''image_urls'', JArray [])]"
  have 1: "format_estate ?e = Inr ?r" by code_simp
  have 2: "map_of ?e (ascii ''types'') = Some (JArray ?ts)" by simp
  have 3: "joined (ascii '', '') (expected_type_names ?ts) = ascii ''Villa, Condo''"
    by code_simp
  have 4: "format_estate ?e' = Inr ?r'" by code_simp
  have 5: "map_of ?e' (ascii ''types'') = Some (JString (ascii ''not-a-list'')) \<and>
           \<not> isinstance_list (JString (ascii ''not-a-list''))" by simp
  from types_flattened [OF 1, of ?ts] 2
  have a: "map_of ?r (ascii ''types'')
             = Some (JString (joined (ascii '', '') (expected_type_names ?ts)))" by blast
  from types_flattened [OF 4, of "[]" "JString (ascii ''not-a-list'')"] 5
  have b: "map_of ?r' (ascii ''types'') = Some (JString [])" by blast
  from a [unfolded 3] b 1 4 show ?thesis by simp
qed

text \<open>Claim C10 at a record that already holds both keys.\<close>

theorem derived_keys_present_witness:
  "format_estate [(ascii ''image_urls'', JString (ascii ''old'')), (ascii ''types'', JInt 7)]
   = Inr [(ascii ''image_urls'', JArray []), (ascii ''types'', JString [])] \<and>
   (\<exists>imgs urls j.
      py_iter (images_value
        [(ascii ''image_urls'', JString (ascii ''old'')), (ascii ''types'', JInt 7)]) = Inr imgs \<and>
      image_urls_of imgs = Inr urls \<and>
      flatten_types (types_value
        [(ascii ''image_urls'', JString (ascii ''old'')), (ascii ''types'', JInt 7)]) = Inr j \<and>
      map_of [(ascii ''image_urls'', JArray []), (ascii ''types'', JString [])]
        (ascii ''image_urls'') = Some (JArray (map JString urls)) \<and>
      map_of [(ascii ''image_urls'', JArray []), (ascii ''types'', JString [])]
        (ascii ''types'') = Some (JString j))"
proof -
  have 1: "format_estate
             [(ascii ''image_urls'', JString (ascii ''old'')), (ascii ''types'', JInt 7)]
           = Inr [(ascii ''image_urls'', JArray []), (ascii ''types'', JString [])]"
    by code_simp
  from derived_keys_present [OF 1] 1 show ?thesis by blast
qed

text \<open>Claim C4 as amended, at a well-formed record.\<close>

theorem format_estate_returns_on_wellformed_witness:
  "images_wf
     [(ascii ''images'',
        JArray [JObject [(ascii ''file_name'', JString (ascii ''a.jpg''))], JObject []]),
      (ascii ''types'', JArray [JObject [(ascii ''name'', JString (ascii ''Villa''))],
                                JObject [(ascii ''name'', JNull)]])] \<and>
   types_wf
     [(ascii ''images'',
        JArray [JObject [(ascii ''file_name'', JString (ascii ''a.jpg''))], JObject []]),
      (ascii ''types'', JArray [JObject [(ascii ''name'', JString (ascii ''Villa''))],
                                JObject [(ascii ''name'', JNull)]])] \<and>
   (\<exists>r. format_estate
     [(ascii ''images'',
        JArray [JObject [(ascii ''file_name'', JString (ascii ''a.jpg''))], JObject []]),
      (ascii ''types'', JArray [JObject [(ascii ''name'', JString (ascii ''Villa''))],
                                JObject [(ascii ''name'', JNull)]])] = Inr r)"
proof -
  let ?e = "[(ascii ''images'',
        JArray [JObject [(ascii ''file_name'', JString (ascii ''a.jpg''))], JObject []]),
      (ascii ''types'', JArray [JObject [(ascii ''name'', JString (ascii ''Villa''))],
                                JObject [(ascii ''name'', JNull)]])]"
  have 1: "images_wf ?e" by code_simp
  have 2: "types_wf ?e" by code_simp
  from format_estate_returns_on_wellformed [OF 1 2] 1 2 show ?thesis by blast
qed

text \<open>
  \<open>format_estate\<close> is not total: a \<open>types\<close> entry that is a string, and an \<open>images\<close>
  value that is a string, both raise AttributeError.
\<close>

theorem format_estate_total_counterexample:
  "format_estate [(ascii ''types'', JArray [JString (ascii ''Villa'')])] = Inl AttributeError \<and>
   format_estate [(ascii ''images'', JString (ascii ''a.jpg''))] = Inl AttributeError"
  by code_simp

text \<open>
  Claim C3 with a bound of five pages and a site whose third page has no payload:
  three requests, the records of two pages.
\<close>

theorem pagination_witness:
  \<open>get_all_realestates
     (\<lambda>p. if p < 3 then Inr (marker_tag @ ascii ''{"realEstates": [{"id": 1}]}'')
          else Inr (ascii ''<html></html>''))
     json_loads 5
   = (Inr [JObject [(ascii ''id'', JInt 1), (ascii ''image_urls'', JArray []),
                    (ascii ''types'', JString [])],
           JObject [(ascii ''id'', JInt 1), (ascii ''image_urls'', JArray []),
                    (ascii ''types'', JString [])]],
      [1, 2, 3])\<close>
proof -
  let ?F = \<open>\<lambda>p::int. if p < 3
             then (Inr (marker_tag @ ascii ''{"realEstates": [{"id": 1}]}'') :: pyerr + ustr)
             else Inr (ascii ''<html></html>'')\<close>
  let ?R = "JObject [(ascii ''id'', JInt 1), (ascii ''image_urls'', JArray []),
                     (ascii ''types'', JString [])]"
  have p1: "page_records ?F json_loads 1 = Inr [?R]" by code_simp
  have p2: "page_records ?F json_loads 2 = Inr [?R]" by code_simp
  have p3: "page_records ?F json_loads (2 + 1) = Inr []" by code_simp
  have a: "(1::int) \<le> 5" "(0::int) \<le> 2" "(2::int) \<le> 5" by simp_all
  have h4: "\<forall>p\<in>{1..2}. page_records ?F json_loads p = Inr [?R] \<and> [?R] \<noteq> []"
  proof
    fix p :: int assume "p \<in> {1..2}"
    then have "p = 1 \<or> p = 2" by auto
    with p1 p2 show "page_records ?F json_loads p = Inr [?R] \<and> [?R] \<noteq> []" by auto
  qed
  have h5: "(2::int) < 5 \<longrightarrow> page_records ?F json_loads (2 + 1) = Inr []"
    using p3 by blast
  have u1: "[1..2::int] = [1, 2]" by code_simp
  have u2: "[1..min (2 + 1) (5::int)] = [1, 2, 3]" by code_simp
  from pagination [where m = 5 and k = 2 and fetch = ?F and loads = json_loads
         and recs = "\<lambda>_. [?R]", OF a h4 h5]
  have "get_all_realestates ?F json_loads 5
          = (Inr (concat (map (\<lambda>_. [?R]) [1..2])), [1..min (2 + 1) 5])" .
  then show ?thesis unfolding u1 u2 by simp
qed

text \<open>Claim C9 at \<open>max_pages = 0\<close> and \<open>max_pages = -3\<close>.\<close>

theorem no_pages_raises_witness:
  "get_all_realestates (\<lambda>p. Inr (ascii ''<html></html>'')) json_loads 0
     = (Inl UnboundLocalError, []) \<and>
   get_all_realestates (\<lambda>p. Inr (ascii ''<html></html>'')) json_loads (- 3)
     = (Inl UnboundLocalError, [])"
  using no_pages_raises [where max_pages = 0 and loads = json_loads
          and fetch = "\<lambda>p. Inr (ascii ''<html></html>'')"]
        no_pages_raises [where max_pages = "- 3" and loads = json_loads
          and fetch = "\<lambda>p. Inr (ascii ''<html></html>'')"]
  by simp

end
